theory Spec2Isabelle
  imports Main "HOL-Library.Sublist"
begin

section \<open>Strings, paths and the host of the program\<close>

text \<open>
  The program (src/main.cpp) reaches the world outside it through five library calls:
  \<^verbatim>\<open>popen\<close>/\<^verbatim>\<open>pclose\<close>, \<^verbatim>\<open>fs::exists\<close>, opening a \<^verbatim>\<open>std::ofstream\<close>,
  \<^verbatim>\<open>fs::recursive_directory_iterator\<close> and \<^verbatim>\<open>fs::directory_iterator\<close>. The model takes
  their answers from a \<open>host\<close>, a record of functions; an answer may depend on the command
  lines run before it, so a host can be as stateful as a real machine. Strings are byte
  lists, as \<^verbatim>\<open>std::string\<close> is.

  The two iterators, and the calls made on their entries, throw \<^verbatim>\<open>filesystem_error\<close> when the
  host refuses something, and the program catches this for the root directory only (lines
  265 to 273). So an iteration is a \<open>listing\<close>: the entries examined, and whether an
  exception ended it. \<^verbatim>\<open>fs::exists\<close> on the path of a manifest or of a signature, in a
  repository that was just detected, is taken to answer.
\<close>

abbreviation nl :: string where "nl \<equiv> [CHR 0x0A]"
abbreviation dq :: string where "dq \<equiv> [CHR 0x22]"

text \<open>\<^verbatim>\<open>repo / "name"\<close> of \<^verbatim>\<open>fs::path\<close>, for a relative right operand and the separator \<^verbatim>\<open>/\<close>:
  a separator is put in between unless the left operand has no filename (it is empty or
  ends with a separator).\<close>

definition path_append :: "string \<Rightarrow> string \<Rightarrow> string" where
  "path_append p q = (if p = [] \<or> last p = CHR ''/'' then p @ q else p @ ''/'' @ q)"

text \<open>\<^verbatim>\<open>std::to_string(int)\<close>.\<close>

fun to_digits :: "nat \<Rightarrow> string" where
  "to_digits n =
     (if n < 10 then [''0123456789'' ! n]
      else to_digits (n div 10) @ [''0123456789'' ! (n mod 10)])"

declare to_digits.simps [simp del]

definition to_string :: "int \<Rightarrow> string" where
  "to_string i = (if i < 0 then ''-'' @ to_digits (nat (- i)) else to_digits (nat i))"

text \<open>\<^verbatim>\<open>iss >> hash\<close>: skip leading white space, then read up to the next white space. The
  extraction fails exactly when nothing is read.\<close>

definition isspace :: "char \<Rightarrow> bool" where
  "isspace c \<longleftrightarrow>
     c = CHR '' '' \<or> c = CHR 0x09 \<or> c = CHR 0x0A \<or> c = CHR 0x0B \<or> c = CHR 0x0C \<or> c = CHR 0x0D"

definition extract_token :: "string \<Rightarrow> string" where
  "extract_token out = takeWhile (\<lambda>c. \<not> isspace c) (dropWhile isspace out)"

text \<open>\<^verbatim>\<open>out.find(needle) != std::string::npos\<close>.\<close>

fun find_str :: "string \<Rightarrow> string \<Rightarrow> bool" where
  "find_str needle [] = (needle = [])"
| "find_str needle (c # cs) = (prefix needle (c # cs) \<or> find_str needle cs)"

text \<open>One element of a recursive directory traversal: the three things the program reads
  from it.\<close>

record dir_entry =
  entry_path :: string  \<comment> \<open>\<^verbatim>\<open>p.path().string()\<close>\<close>
  is_regular_file :: bool  \<comment> \<open>\<^verbatim>\<open>p.is_regular_file()\<close>\<close>
  relative :: string  \<comment> \<open>\<^verbatim>\<open>fs::relative(p.path(), repo).string()\<close>\<close>

text \<open>One element of the listing of the root directory.\<close>

record root_entry =
  root_entry_path :: string  \<comment> \<open>\<^verbatim>\<open>p.path()\<close>\<close>
  is_directory :: bool  \<comment> \<open>\<^verbatim>\<open>p.is_directory()\<close>\<close>

text \<open>The stage functions of the program; \<open>calls\<close> below lists the ones entered.\<close>

datatype call =
  Generate string | Sign string | Publish string | VerifySignature string | VerifyMd5 string

text \<open>What a loop over a directory iterator gets: all the entries, or some entries and then
  an exception, thrown by the iterator or by a call that examines the next entry (no entry
  at all when the directory does not exist or cannot be opened).\<close>

datatype 'a listing = Listed "'a list" | Threw "'a list"

fun yielded :: "'a listing \<Rightarrow> 'a list" where
  "yielded (Listed ps) = ps"
| "yielded (Threw ps) = ps"

fun throws :: "'a listing \<Rightarrow> bool" where
  "throws (Listed ps) = False"
| "throws (Threw ps) = True"

text \<open>What a call of a function of the program ends in: it returns, or an exception that
  nothing catches leaves it and ends the process. Of a process that ended, the model keeps
  the command lines it had run and the stage functions it had entered; what a stream that
  was never closed left in its file is not said.\<close>

datatype 'a outcome = Returns 'a | Aborts "string list" "call list"

record host =
  popen :: "string list \<Rightarrow> string \<Rightarrow> (int \<times> string) option"
    \<comment> \<open>commands run before, command line: \<open>None\<close> when \<^verbatim>\<open>popen\<close> returns no pipe, else the
       status \<^verbatim>\<open>pclose\<close> returns and the captured output\<close>
  fs_exists :: "string list \<Rightarrow> string \<Rightarrow> bool"
  ofstream_open :: "string list \<Rightarrow> string \<Rightarrow> bool"
    \<comment> \<open>whether \<^verbatim>\<open>std::ofstream ofs(path, std::ios::trunc)\<close> opens\<close>
  recursive_directory_iterator :: "string list \<Rightarrow> string \<Rightarrow> dir_entry listing"
  directory_iterator :: "string list \<Rightarrow> string \<Rightarrow> root_entry listing"

text \<open>
  The state the program changes: the command lines handed to \<^verbatim>\<open>popen\<close> so far (oldest
  first), the files it wrote through an \<^verbatim>\<open>ofstream\<close>, and the stage functions it entered.
  The field \<open>calls\<close> is a ghost: nothing in the program reads it, it only records that a
  function was entered, with the repository it was given.
\<close>

record sys =
  invoked :: "string list"
  disk :: "string \<Rightarrow> string option"
  calls :: "call list"

definition enter :: "call \<Rightarrow> sys \<Rightarrow> sys" where
  "enter c s = s\<lparr>calls := calls s @ [c]\<rparr>"

section \<open>run\_command\_capture\<close>

text \<open>Lines 27 to 48. The command line gets \<^verbatim>\<open> 2>&1\<close> appended; a failed \<^verbatim>\<open>popen\<close> is the
  pair \<^verbatim>\<open>(-1, "popen failed")\<close>.\<close>

definition run_command_capture :: "host \<Rightarrow> string \<Rightarrow> sys \<Rightarrow> (int \<times> string) \<times> sys" where
  "run_command_capture H cmd s =
     (let line = cmd @ '' 2>&1'';
          s' = s\<lparr>invoked := invoked s @ [line]\<rparr>
      in case popen H (invoked s) line of
           None \<Rightarrow> ((- 1, ''popen failed''), s')
         | Some (rc, result) \<Rightarrow> ((rc, result), s'))"

section \<open>generate\_hashes\_md5\<close>

text \<open>
  Lines 51 to 98. The stream \<open>ofs\<close> is the list of the lines inserted so far, each a pair of
  hash and path; \<open>manifest_text\<close> is the text these insertions make, which is in the file
  when the stream is closed. \<open>hash_files\<close> is the loop of lines 60 to 94 on the entries the
  traversal yields, and \<open>hash_traversal\<close> is the loop on the traversal: when the loop has
  gone through the entries without returning and the traversal then throws (lines 60 to
  62: the iterator, \<^verbatim>\<open>is_regular_file\<close>, \<^verbatim>\<open>fs::relative\<close>), the exception leaves the function.
  Lines 83 to 89 compute \<^verbatim>\<open>fullpath\<close>, which nothing reads.
\<close>

definition entry_line :: "string \<times> string \<Rightarrow> string" where
  "entry_line e = fst e @ ''  '' @ snd e @ nl"

definition manifest_text :: "(string \<times> string) list \<Rightarrow> string" where
  "manifest_text ofs = concat (map entry_line ofs)"

definition md5sum_cmd :: "dir_entry \<Rightarrow> string" where
  "md5sum_cmd p = ''md5sum '' @ dq @ entry_path p @ dq"

fun hash_files ::
  "host \<Rightarrow> dir_entry list \<Rightarrow> (string \<times> string) list \<Rightarrow> string \<Rightarrow> sys
     \<Rightarrow> bool \<times> (string \<times> string) list \<times> string \<times> sys" where
  "hash_files H [] ofs out_log s = (True, ofs, out_log, s)"
| "hash_files H (p # ps) ofs out_log s =
     (if \<not> is_regular_file p then hash_files H ps ofs out_log s
      else if prefix ''.git'' (relative p) then hash_files H ps ofs out_log s
      else if relative p = ''hashes.md5'' \<or> relative p = ''hashes.md5.asc''
        then hash_files H ps ofs out_log s
      else
        (case run_command_capture H (md5sum_cmd p) s of
           ((rc, out), s1) \<Rightarrow>
             if rc \<noteq> 0
             then (False, ofs,
                   out_log @ ''md5sum fallo para '' @ entry_path p @ '' :'' @ nl @ out @ nl, s1)
             else if extract_token out = [] then hash_files H ps ofs out_log s1
             else hash_files H ps (ofs @ [(extract_token out, ''./'' @ relative p)]) out_log s1))"

definition hash_traversal ::
  "host \<Rightarrow> dir_entry listing \<Rightarrow> (string \<times> string) list \<Rightarrow> string \<Rightarrow> sys
     \<Rightarrow> (bool \<times> (string \<times> string) list \<times> string \<times> sys) outcome" where
  "hash_traversal H traversal ofs out_log s =
     (case hash_files H (yielded traversal) ofs out_log s of
        (completed, ofs1, out_log1, s1) \<Rightarrow>
          if completed \<and> throws traversal then Aborts (invoked s1) (calls s1)
          else Returns (completed, ofs1, out_log1, s1))"

text \<open>The insertions that \<open>generate_hashes_md5\<close> below makes into the stream once it is
  open: the second component of its loop.\<close>

definition manifest_stream :: "host \<Rightarrow> string \<Rightarrow> string \<Rightarrow> sys \<Rightarrow> (string \<times> string) list" where
  "manifest_stream H repo out_log s0 =
     (let s = enter (Generate repo) s0
      in fst (snd (hash_files H (yielded (recursive_directory_iterator H (invoked s) repo)) [] out_log
                     (s\<lparr>disk := (disk s)(path_append repo ''hashes.md5'' \<mapsto> [])\<rparr>))))"

definition generate_hashes_md5 ::
  "host \<Rightarrow> string \<Rightarrow> string \<Rightarrow> sys \<Rightarrow> (bool \<times> string \<times> sys) outcome" where
  "generate_hashes_md5 H repo out_log s0 =
     (let s = enter (Generate repo) s0;
          hashes_path = path_append repo ''hashes.md5''
      in if \<not> ofstream_open H (invoked s) hashes_path
         then Returns (False, out_log @ ''Error: no se puede crear '' @ hashes_path @ nl, s)
         else
           (case hash_traversal H (recursive_directory_iterator H (invoked s) repo) [] out_log
                   (s\<lparr>disk := (disk s)(hashes_path \<mapsto> [])\<rparr>) of
              Aborts cmds stages \<Rightarrow> Aborts cmds stages
            | Returns (completed, ofs, out_log1, s1) \<Rightarrow>
                let s2 = s1\<lparr>disk := (disk s1)(hashes_path \<mapsto> manifest_text ofs)\<rparr>
                in if completed
                   then Returns (True, out_log1 @ ''Generado: '' @ hashes_path @ nl, s2)
                   else Returns (False, out_log1, s2)))"

section \<open>sign\_hashes\<close>

text \<open>Lines 101 to 122.\<close>

definition sign_cmd :: "string \<Rightarrow> string \<Rightarrow> string" where
  "sign_cmd repo gpg_key =
     (let hashes = path_append repo ''hashes.md5'';
          asc = path_append repo ''hashes.md5.asc''
      in if gpg_key \<noteq> []
         then ''gpg --default-key '' @ gpg_key @ '' --armor --output '' @ dq @ asc @ dq
                @ '' --sign '' @ dq @ hashes @ dq
         else ''gpg --armor --output '' @ dq @ asc @ dq @ '' --sign '' @ dq @ hashes @ dq)"

definition sign_hashes ::
  "host \<Rightarrow> string \<Rightarrow> string \<Rightarrow> string \<Rightarrow> sys \<Rightarrow> bool \<times> string \<times> sys" where
  "sign_hashes H repo gpg_key out_log s0 =
     (let s = enter (Sign repo) s0;
          hashes = path_append repo ''hashes.md5'';
          asc = path_append repo ''hashes.md5.asc''
      in if \<not> fs_exists H (invoked s) hashes
         then (False, out_log @ ''No existe '' @ hashes @ nl, s)
         else
           (case run_command_capture H (sign_cmd repo gpg_key) s of
              ((rc, out), s1) \<Rightarrow>
                if rc \<noteq> 0
                then (False, out_log @ out @ ''gpg sign failed (rc='' @ to_string rc @ '')'' @ nl, s1)
                else (True, out_log @ out @ ''Firmado: '' @ asc @ nl, s1)))"

section \<open>git\_add\_commit\_push\<close>

text \<open>Lines 125 to 151. \<open>git_run\<close> is the lambda \<^verbatim>\<open>run\<close> of lines 126 to 134. The commit
  message holds the two bytes of a UTF-8 n with tilde.\<close>

definition in_repo :: "string \<Rightarrow> string \<Rightarrow> string" where
  "in_repo repo c = ''cd '' @ dq @ repo @ dq @ '' && '' @ c"

definition git_run :: "host \<Rightarrow> string \<Rightarrow> string \<Rightarrow> string \<Rightarrow> sys \<Rightarrow> bool \<times> string \<times> sys" where
  "git_run H repo c out_log s =
     (case run_command_capture H (in_repo repo c) s of
        ((rc, out), s1) \<Rightarrow>
          if rc \<noteq> 0 then (False, out_log @ out @ ''Comando git fallo: '' @ c @ nl, s1)
          else (True, out_log @ out, s1))"

definition git_add :: string where
  "git_add = ''git add hashes.md5 hashes.md5.asc''"

definition git_status :: string where
  "git_status = ''git status --porcelain''"

definition git_commit :: string where
  "git_commit =
     ''git commit -m '' @ dq @ ''a'' @ [CHR 0xC3, CHR 0xB1] @ ''adiendo fichero de hashes firmado'' @ dq"

definition git_push :: string where
  "git_push = ''git push''"

definition git_add_commit_push ::
  "host \<Rightarrow> string \<Rightarrow> string \<Rightarrow> sys \<Rightarrow> bool \<times> string \<times> sys" where
  "git_add_commit_push H repo out_log s0 =
     (case git_run H repo git_add out_log (enter (Publish repo) s0) of
        (ok1, log1, s1) \<Rightarrow>
          if \<not> ok1 then (False, log1, s1)
          else
            (case run_command_capture H (in_repo repo git_status) s1 of
               ((rcStatus, statusOut), s2) \<Rightarrow>
                 if rcStatus \<noteq> 0 then (False, log1 @ statusOut, s2)
                 else if statusOut = []
                 then (True, log1 @ ''No hay cambios para commitear en '' @ repo @ nl, s2)
                 else
                   (case git_run H repo git_commit log1 s2 of
                      (ok3, log3, s3) \<Rightarrow>
                        if \<not> ok3 then (False, log3, s3)
                        else
                          (case git_run H repo git_push log3 s3 of
                             (ok4, log4, s4) \<Rightarrow>
                               if \<not> ok4 then (False, log4, s4)
                               else (True, log4 @ ''Push OK para '' @ repo @ nl, s4)))))"

section \<open>verify\_signature and verify\_md5sum\<close>

text \<open>Lines 153 to 177. The two messages of lines 174 and 175 hold the two bytes of a
  UTF-8 a with acute accent.\<close>

definition verify_cmd :: "string \<Rightarrow> string \<Rightarrow> string" where
  "verify_cmd repo gpg_key =
     (let asc = path_append repo ''hashes.md5.asc'';
          hashes = path_append repo ''hashes.md5''
      in if gpg_key \<noteq> []
         then ''gpg --verify --keyid-format LONG '' @ dq @ asc @ dq @ '' '' @ dq @ hashes @ dq
         else ''gpg --verify '' @ dq @ asc @ dq @ '' '' @ dq @ hashes @ dq)"

definition verify_signature ::
  "host \<Rightarrow> string \<Rightarrow> string \<Rightarrow> string \<Rightarrow> sys \<Rightarrow> bool \<times> string \<times> sys" where
  "verify_signature H repo gpg_key out_log s0 =
     (let s = enter (VerifySignature repo) s0;
          asc = path_append repo ''hashes.md5.asc'';
          hashes = path_append repo ''hashes.md5''
      in if \<not> fs_exists H (invoked s) asc \<or> \<not> fs_exists H (invoked s) hashes
         then (False, out_log @ ''Faltan archivos de firma o hashes en '' @ repo @ nl, s)
         else
           (case run_command_capture H (verify_cmd repo gpg_key) s of
              ((rc, out), s1) \<Rightarrow>
                if rc \<noteq> 0
                then (False, out_log @ out @ ''gpg verify returned rc='' @ to_string rc @ nl, s1)
                else if find_str ''Good signature'' out
                then (True,
                      out_log @ out @ ''Firma v'' @ [CHR 0xC3, CHR 0xA1] @ ''lida en '' @ repo @ nl, s1)
                else (False,
                      out_log @ out @ ''Firma NO v'' @ [CHR 0xC3, CHR 0xA1]
                        @ ''lida o no verificable en '' @ repo @ nl, s1)))"

text \<open>Lines 179 to 195.\<close>

definition verify_md5sum ::
  "host \<Rightarrow> string \<Rightarrow> string \<Rightarrow> sys \<Rightarrow> bool \<times> string \<times> sys" where
  "verify_md5sum H repo out_log s0 =
     (let s = enter (VerifyMd5 repo) s0;
          hashes = path_append repo ''hashes.md5''
      in if \<not> fs_exists H (invoked s) hashes
         then (False, out_log @ ''No existe '' @ hashes @ nl, s)
         else
           (case run_command_capture H (in_repo repo ''md5sum -c hashes.md5'') s of
              ((rc, out), s1) \<Rightarrow>
                if rc = 0
                then (True, out_log @ out @ ''Integridad OK en '' @ repo @ nl, s1)
                else (False,
                      out_log @ out @ ''Integridad FALLIDA (rc='' @ to_string rc @ '') en '' @ repo @ nl,
                      s1)))"

section \<open>main: one frame of the window\<close>




text \<open>Lines 283 to 304: the body of the loop for one repository, the loop, then the handler
  of the button. A \<^verbatim>\<open>continue\<close> ends the body. Neither the body, nor the loop, nor \<^verbatim>\<open>main\<close>
  has a handler for the exception that can leave \<open>generate_hashes_md5\<close>: it leaves them
  all.\<close>

definition publish_repo ::
  "host \<Rightarrow> string \<Rightarrow> string \<Rightarrow> string \<times> sys \<Rightarrow> (string \<times> sys) outcome" where
  "publish_repo H gpg_key r st =
     (let log1 = fst st @ ''Procesando: '' @ r @ nl
      in case generate_hashes_md5 H r [] (snd st) of
           Aborts cmds stages \<Rightarrow> Aborts cmds stages
         | Returns (ok1, tmp1, s1) \<Rightarrow>
             if \<not> ok1
             then Returns (log1 @ ''ERROR generando hashes en '' @ r @ nl @ tmp1 @ nl, s1)
             else
               (case sign_hashes H r gpg_key [] s1 of
                  (ok2, tmp2, s2) \<Rightarrow>
                    if \<not> ok2
                    then Returns (log1 @ tmp1 @ ''ERROR firmando en '' @ r @ nl @ tmp2 @ nl, s2)
                    else
                      (case git_add_commit_push H r [] s2 of
                         (ok3, tmp3, s3) \<Rightarrow>
                           if \<not> ok3
                           then Returns
                                  (log1 @ tmp1 @ tmp2 @ ''ERROR git en '' @ r @ nl @ tmp3 @ nl, s3)
                           else Returns (log1 @ tmp1 @ tmp2 @ tmp3, s3))))"

fun publish_loop ::
  "host \<Rightarrow> string \<Rightarrow> string list \<Rightarrow> string \<times> sys \<Rightarrow> (string \<times> sys) outcome" where
  "publish_loop H gpg_key [] st = Returns st"
| "publish_loop H gpg_key (r # rs) st =
     (case publish_repo H gpg_key r st of
        Aborts cmds stages \<Rightarrow> Aborts cmds stages
      | Returns st1 \<Rightarrow> publish_loop H gpg_key rs st1)"

definition generar_firmar_todos ::
  "host \<Rightarrow> string \<Rightarrow> string list \<Rightarrow> string \<times> sys \<Rightarrow> (string \<times> sys) outcome" where
  "generar_firmar_todos H gpg_key repos st =
     (case publish_loop H gpg_key repos (fst st @ ''=== Generar & Firmar ==='' @ nl, snd st) of
        Aborts cmds stages \<Rightarrow> Aborts cmds stages
      | Returns (log_text, s) \<Rightarrow> Returns (log_text @ ''=== Fin ==='' @ nl, s))"

text \<open>Lines 306 to 319. The closing line holds the two bytes of a UTF-8 o with acute
  accent.\<close>

definition ok_fail :: "bool \<Rightarrow> string" where
  "ok_fail b = (if b then ''OK'' else ''FAIL'')"

definition verify_repo :: "host \<Rightarrow> string \<Rightarrow> string \<Rightarrow> string \<times> sys \<Rightarrow> string \<times> sys" where
  "verify_repo H gpg_key r st =
     (let log1 = fst st @ ''Verificando: '' @ r @ nl
      in case verify_signature H r gpg_key [] (snd st) of
           (sigok, tmp1, s1) \<Rightarrow>
             (case verify_md5sum H r [] s1 of
                (mdok, tmp2, s2) \<Rightarrow>
                  (log1 @ tmp1 @ tmp2 @ ''Resultado: firma='' @ ok_fail sigok @ '', md5=''
                     @ ok_fail mdok @ nl, s2)))"

definition verificar_todos ::
  "host \<Rightarrow> string \<Rightarrow> string list \<Rightarrow> string \<times> sys \<Rightarrow> string \<times> sys" where
  "verificar_todos H gpg_key repos st =
     (case fold (verify_repo H gpg_key) repos (fst st @ ''=== Verificar ==='' @ nl, snd st) of
        (log_text, s) \<Rightarrow>
          (log_text @ ''=== Fin verificaci'' @ [CHR 0xC3, CHR 0xB3] @ ''n ==='' @ nl, s))"


section \<open>Definitions used by the statements\<close>

text \<open>The stages of the pipeline of one repository, in their order.\<close>

definition pipeline :: "string \<Rightarrow> call list" where
  "pipeline r = [Generate r, Sign r, Publish r]"

text \<open>A host with the traversal of a repository filtered as line 64 filters its entries.\<close>

fun filter_listing :: "('a \<Rightarrow> bool) \<Rightarrow> 'a listing \<Rightarrow> 'a listing" where
  "filter_listing P (Listed ps) = Listed (filter P ps)"
| "filter_listing P (Threw ps) = Threw (filter P ps)"

definition without_marker_prefix :: "host \<Rightarrow> host" where
  "without_marker_prefix H =
     H\<lparr>recursive_directory_iterator :=
         \<lambda>h repo. filter_listing (\<lambda>p. \<not> prefix ''.git'' (relative p))
                     (recursive_directory_iterator H h repo)\<rparr>"


section \<open>Sample hosts\<close>

text \<open>
  Small hosts to run the program on. In \<open>sample_host\<close> every repository holds the same
  seven entries and its traversal does not throw, the tools answer by the command line
  alone, and a file exists when \<open>present\<close> says so.
\<close>

definition boot :: sys where
  "boot = \<lparr>invoked = [], disk = (\<lambda>p. None), calls = []\<rparr>"

definition sample_tree :: "string \<Rightarrow> dir_entry list" where
  "sample_tree repo =
     [\<lparr>entry_path = repo @ ''/.git/config'', is_regular_file = True, relative = ''.git/config''\<rparr>,
      \<lparr>entry_path = repo @ ''/.gitignore'', is_regular_file = True, relative = ''.gitignore''\<rparr>,
      \<lparr>entry_path = repo @ ''/src'', is_regular_file = False, relative = ''src''\<rparr>,
      \<lparr>entry_path = repo @ ''/src/a.c'', is_regular_file = True, relative = ''src/a.c''\<rparr>,
      \<lparr>entry_path = repo @ ''/hashes.md5'', is_regular_file = True, relative = ''hashes.md5''\<rparr>,
      \<lparr>entry_path = repo @ ''/b.txt'', is_regular_file = True, relative = ''b.txt''\<rparr>,
      \<lparr>entry_path = repo @ ''/c.txt'', is_regular_file = True, relative = ''c.txt''\<rparr>]"

definition sample_host ::
  "(string \<Rightarrow> (int \<times> string) option) \<Rightarrow> (string \<Rightarrow> bool) \<Rightarrow> root_entry listing \<Rightarrow> host" where
  "sample_host tool present root =
     \<lparr>popen = (\<lambda>h. tool), fs_exists = (\<lambda>h. present), ofstream_open = (\<lambda>h p. True),
      recursive_directory_iterator = (\<lambda>h repo. Listed (sample_tree repo)),
      directory_iterator = (\<lambda>h p. root)\<rparr>"

text \<open>Tools that succeed: an md5sum line, a good signature, and no output from anything
  else (so \<^verbatim>\<open>git status\<close> reports nothing).\<close>

definition tools_ok :: "string \<Rightarrow> (int \<times> string) option" where
  "tools_ok line =
     (if prefix ''md5sum '' line then Some (0, ''0cc175b9  f'' @ nl)
      else if prefix ''gpg --verify'' line then Some (0, ''gpg: Good signature from K'' @ nl)
      else Some (0, []))"

text \<open>The same, with \<^verbatim>\<open>/a/b.txt\<close> unreadable.\<close>

definition tools_a_unreadable :: "string \<Rightarrow> (int \<times> string) option" where
  "tools_a_unreadable line =
     (if line = ''md5sum '' @ dq @ ''/a/b.txt'' @ dq @ '' 2>&1''
      then Some (256, ''md5sum: /a/b.txt: Permission denied'' @ nl)
      else tools_ok line)"

text \<open>A host where \<^verbatim>\<open>/a/src\<close> holds a directory that cannot be opened: the traversal of \<^verbatim>\<open>/a\<close>
  yields four entries and throws. The other repositories are as before.\<close>

definition host_a_unreadable_dir :: host where
  "host_a_unreadable_dir =
     (sample_host tools_ok (\<lambda>p. True) (Listed []))
       \<lparr>recursive_directory_iterator :=
          \<lambda>h repo. if repo = ''/a'' then Threw (take 4 (sample_tree repo))
                    else Listed (sample_tree repo)\<rparr>"



section \<open>Facts about the helpers\<close>

lemmas sample_defs = sample_host_def sample_tree_def tools_ok_def tools_a_unreadable_def boot_def
  enter_def run_command_capture_def md5sum_cmd_def extract_token_def isspace_def path_append_def

lemmas stage_defs = generate_hashes_md5_def hash_traversal_def sign_hashes_def sign_cmd_def
  git_add_commit_push_def git_run_def in_repo_def git_add_def git_status_def verify_signature_def
  verify_cmd_def verify_md5sum_def Let_def


lemma run_command_capture_state:
  "snd (run_command_capture H cmd s) = s\<lparr>invoked := invoked s @ [cmd @ '' 2>&1'']\<rparr>"
  by (simp add: run_command_capture_def Let_def split: option.split prod.split)

lemma run_command_capture_result:
  "fst (run_command_capture H cmd s) =
     (case popen H (invoked s) (cmd @ '' 2>&1'') of None \<Rightarrow> (- 1, ''popen failed'') | Some r \<Rightarrow> r)"
  by (simp add: run_command_capture_def Let_def split: option.split prod.split)

lemma run_command_capture_eq:
  "run_command_capture H cmd s = ((rc, out), s1) \<Longrightarrow>
     s1 = s\<lparr>invoked := invoked s @ [cmd @ '' 2>&1'']\<rparr>"
  using run_command_capture_state [of H cmd s] by simp

lemma hash_files_entries:
  "hash_files H ps ofs0 out_log s = (c, ofs, out_log', s') \<Longrightarrow> e \<in> set ofs \<Longrightarrow>
     e \<in> set ofs0 \<or>
     (\<exists>p\<in>set ps. is_regular_file p \<and> snd e = ''./'' @ relative p \<and> \<not> prefix ''.git'' (relative p)
        \<and> relative p \<noteq> ''hashes.md5'' \<and> relative p \<noteq> ''hashes.md5.asc'')"
proof (induction ps arbitrary: ofs0 out_log s)
  case Nil
  then show ?case by simp
next
  case (Cons p ps)
  show ?case
  proof (cases "\<not> is_regular_file p \<or> prefix ''.git'' (relative p)
      \<or> relative p = ''hashes.md5'' \<or> relative p = ''hashes.md5.asc''")
    case True
    with Cons.prems have "hash_files H ps ofs0 out_log s = (c, ofs, out_log', s')"
      by (auto split: if_splits)
    from Cons.IH [OF this Cons.prems(2)] show ?thesis by auto
  next
    case False
    obtain rc out s1 where run: "run_command_capture H (md5sum_cmd p) s = ((rc, out), s1)"
      by (metis prod.exhaust)
    show ?thesis
    proof (cases "rc \<noteq> 0")
      case True
      with False run Cons.prems show ?thesis by auto
    next
      case rc0: False
      show ?thesis
      proof (cases "extract_token out = []")
        case True
        with False run rc0 Cons.prems have "hash_files H ps ofs0 out_log s1 = (c, ofs, out_log', s')"
          by auto
        from Cons.IH [OF this Cons.prems(2)] show ?thesis by auto
      next
        case tok: False
        with False run rc0 Cons.prems have
          "hash_files H ps (ofs0 @ [(extract_token out, ''./'' @ relative p)]) out_log s1 = (c, ofs, out_log', s')"
          by auto
        from Cons.IH [OF this Cons.prems(2)] False show ?thesis by auto
      qed
    qed
  qed
qed

lemma hash_files_frame:
  "hash_files H ps ofs0 out_log s = (c, ofs, out_log', s') \<Longrightarrow>
     calls s' = calls s \<and> disk s' = disk s"
proof (induction ps arbitrary: ofs0 out_log s)
  case Nil
  then show ?case by simp
next
  case (Cons p ps)
  obtain rc out s1 where run: "run_command_capture H (md5sum_cmd p) s = ((rc, out), s1)"
    by (metis prod.exhaust)
  have s1: "calls s1 = calls s \<and> disk s1 = disk s"
    using run_command_capture_eq [OF run] by simp
  from Cons.prems run s1 show ?case
    by (auto split: if_splits dest!: Cons.IH)
qed

lemma hash_files_skip_marker:
  "hash_files H (filter (\<lambda>p. \<not> prefix ''.git'' (relative p)) ps) ofs out_log s
     = hash_files H ps ofs out_log s"
proof (induction ps arbitrary: ofs out_log s)
  case Nil
  show ?case by simp
next
  case (Cons p ps)
  show ?case
    by (simp add: Cons.IH split: prod.split)
qed

lemma hash_files_host:
  "popen H' = popen H \<Longrightarrow> hash_files H' ps ofs out_log s = hash_files H ps ofs out_log s"
proof (induction ps arbitrary: ofs out_log s)
  case Nil
  show ?case by simp
next
  case (Cons p ps)
  have "run_command_capture H' (md5sum_cmd p) s = run_command_capture H (md5sum_cmd p) s"
    using Cons.prems by (simp add: run_command_capture_def)
  then show ?case
    using Cons.IH [OF Cons.prems] by (simp split: prod.split)
qed

lemma hash_files_append:
  "hash_files H ps ofs out_log s = (True, ofs1, log1, s1) \<Longrightarrow>
     hash_files H (ps @ qs) ofs out_log s = hash_files H qs ofs1 log1 s1"
proof (induction ps arbitrary: ofs out_log s)
  case Nil
  then show ?case by simp
next
  case (Cons p ps)
  obtain rc out s' where run: "run_command_capture H (md5sum_cmd p) s = ((rc, out), s')"
    by (metis prod.exhaust)
  from Cons.prems run show ?case
    by (auto split: if_splits intro: Cons.IH)
qed

lemma filter_listing_yielded:
  "yielded (filter_listing P L) = filter P (yielded L)" "throws (filter_listing P L) = throws L"
  by (cases L; simp)+

lemma generate_opened:
  assumes "ofstream_open H (invoked s0) (path_append repo ''hashes.md5'')"
    and "hash_files H (yielded (recursive_directory_iterator H (invoked s0) repo)) [] out_log
           ((enter (Generate repo) s0)\<lparr>disk := (disk s0)(path_append repo ''hashes.md5'' \<mapsto> [])\<rparr>)
         = (completed, ofs, log1, s1)"
  shows "generate_hashes_md5 H repo out_log s0 =
           (if completed \<and> throws (recursive_directory_iterator H (invoked s0) repo)
            then Aborts (invoked s1) (calls s1)
            else Returns (completed,
                          (if completed then log1 @ ''Generado: '' @ path_append repo ''hashes.md5'' @ nl
                           else log1),
                          s1\<lparr>disk := (disk s1)(path_append repo ''hashes.md5'' \<mapsto> manifest_text ofs)\<rparr>))"
proof -
  have d: "disk (enter (Generate repo) s0) = disk s0"
    and i: "invoked (enter (Generate repo) s0) = invoked s0"
    by (simp_all add: enter_def)
  show ?thesis
    using assms by (simp add: generate_hashes_md5_def hash_traversal_def Let_def d i)
qed

lemma generate_disk:
  assumes "ofstream_open H (invoked s0) (path_append repo ''hashes.md5'')"
    and "generate_hashes_md5 H repo out_log s0 = Returns (ok, log1, s')"
  shows "disk s' (path_append repo ''hashes.md5'')
           = Some (manifest_text (manifest_stream H repo out_log s0))"
proof -
  let ?s = "(enter (Generate repo) s0)\<lparr>disk := (disk s0)(path_append repo ''hashes.md5'' \<mapsto> [])\<rparr>"
  obtain c ofs l s1 where run:
    "hash_files H (yielded (recursive_directory_iterator H (invoked s0) repo)) [] out_log ?s = (c, ofs, l, s1)"
    by (metis prod.exhaust)
  have ms: "manifest_stream H repo out_log s0 = ofs"
    using run by (simp add: manifest_stream_def Let_def enter_def)
  from generate_opened [OF assms(1) run] assms(2) show ?thesis
    by (auto simp: ms split: if_splits)
qed

lemma generate_aborts_only_if_throws:
  assumes "generate_hashes_md5 H repo out_log s0 = Aborts cmds stages"
  shows "throws (recursive_directory_iterator H (invoked s0) repo)"
  using assms
  by (auto simp: generate_hashes_md5_def hash_traversal_def Let_def enter_def
      split: if_splits prod.splits outcome.splits)

lemma generate_returns:
  assumes "\<not> throws (recursive_directory_iterator H (invoked s) repo)"
  shows "\<exists>ok l s'. generate_hashes_md5 H repo out_log s = Returns (ok, l, s')"
proof (cases "generate_hashes_md5 H repo out_log s")
  case (Returns r)
  then show ?thesis by (cases r) auto
next
  case (Aborts cmds stages)
  from generate_aborts_only_if_throws [OF this] assms show ?thesis by simp
qed

lemma to_string_examples:
  "to_string 0 = ''0''" "to_string 256 = ''256''" "to_string (- 1) = ''-1''"
  by (simp_all add: to_string_def to_digits.simps)

lemma snd_case_prod: "snd (case x of (a, b) \<Rightarrow> (f a, b)) = snd x"
  by (cases x) simp

lemma fst_case_prod: "fst (case x of (a, b) \<Rightarrow> (f a, b)) = f (fst x)"
  by (cases x) simp

lemma find_str_iff: "find_str needle hay \<longleftrightarrow> (\<exists>a b. hay = a @ needle @ b)"
proof (induction hay)
  case Nil
  show ?case by auto
next
  case (Cons c cs)
  show ?case
  proof
    assume "find_str needle (c # cs)"
    then consider "prefix needle (c # cs)" | "find_str needle cs" by auto
    then show "\<exists>a b. c # cs = a @ needle @ b"
    proof cases
      case 1
      then obtain b where "c # cs = needle @ b" by (auto simp: prefix_def)
      then have "c # cs = [] @ needle @ b" by simp
      then show ?thesis by blast
    next
      case 2
      with Cons.IH obtain a b where "cs = a @ needle @ b" by blast
      then have "c # cs = (c # a) @ needle @ b" by simp
      then show ?thesis by blast
    qed
  next
    assume "\<exists>a b. c # cs = a @ needle @ b"
    then obtain a b where ab: "c # cs = a @ needle @ b" by blast
    show "find_str needle (c # cs)"
    proof (cases a)
      case Nil
      with ab have "prefix needle (c # cs)" by (simp add: prefix_def)
      then show ?thesis by simp
    next
      case (Cons x a')
      with ab have "cs = a' @ needle @ b" by simp
      with Cons.IH have "find_str needle cs" by blast
      then show ?thesis by simp
    qed
  qed
qed

lemma generate_calls:
  "generate_hashes_md5 H repo out_log s = Returns (ok, l, s') \<Longrightarrow> calls s' = calls s @ [Generate repo]"
  "generate_hashes_md5 H repo out_log s = Aborts cmds stages \<Longrightarrow> stages = calls s @ [Generate repo]"
proof -
  let ?s = "enter (Generate repo) s"
  obtain c ofs l1 s1 where run:
    "hash_files H (yielded (recursive_directory_iterator H (invoked ?s) repo)) [] out_log
       (?s\<lparr>disk := (disk ?s)(path_append repo ''hashes.md5'' \<mapsto> [])\<rparr>) = (c, ofs, l1, s1)"
    by (metis prod.exhaust)
  from hash_files_frame [OF run] have c: "calls s1 = calls s @ [Generate repo]"
    by (simp add: enter_def)
  show "generate_hashes_md5 H repo out_log s = Returns (ok, l, s') \<Longrightarrow> calls s' = calls s @ [Generate repo]"
    using run c
    by (auto simp: generate_hashes_md5_def hash_traversal_def Let_def enter_def split: if_splits)
  show "generate_hashes_md5 H repo out_log s = Aborts cmds stages \<Longrightarrow> stages = calls s @ [Generate repo]"
    using run c
    by (auto simp: generate_hashes_md5_def hash_traversal_def Let_def enter_def split: if_splits)
qed

lemma sign_calls:
  "calls (snd (snd (sign_hashes H repo gpg_key out_log s))) = calls s @ [Sign repo]"
  by (auto simp: sign_hashes_def Let_def enter_def run_command_capture_def
      split: prod.split option.split)

lemma git_run_calls:
  "calls (snd (snd (git_run H repo c out_log s))) = calls s"
  by (auto simp: git_run_def run_command_capture_def Let_def split: prod.split option.split)

lemma git_calls:
  "calls (snd (snd (git_add_commit_push H repo out_log s))) = calls s @ [Publish repo]"
proof -
  have a: "git_run H repo c l s = (ok, l', s') \<Longrightarrow> calls s' = calls s" for c l s ok l' s'
    using git_run_calls [of H repo c l s] by simp
  have b: "run_command_capture H c s = (r, s') \<Longrightarrow> calls s' = calls s" for c s r s'
    using run_command_capture_state [of H c s] by simp
  show ?thesis
    by (auto simp: git_add_commit_push_def enter_def split: prod.split dest!: a b)
qed

lemma verify_signature_calls:
  "calls (snd (snd (verify_signature H repo gpg_key out_log s))) = calls s @ [VerifySignature repo]"
  by (auto simp: verify_signature_def Let_def enter_def run_command_capture_def
      split: prod.split option.split)

lemma verify_md5sum_calls:
  "calls (snd (snd (verify_md5sum H repo out_log s))) = calls s @ [VerifyMd5 repo]"
  by (auto simp: verify_md5sum_def Let_def enter_def run_command_capture_def
      split: prod.split option.split)

section \<open>Manifest generation\<close>

text \<open>
  C1. When the manifest can be opened and \<open>generate_hashes_md5\<close> returns, the file it leaves
  holds the text of the entries it inserted (it ends without returning only when the
  traversal throws), and each entry it inserts is \<^verbatim>\<open>./\<close> followed by the relative path of a
  regular file of the traversal whose relative path does not begin with \<^verbatim>\<open>.git\<close> and is
  neither \<^verbatim>\<open>hashes.md5\<close> nor \<^verbatim>\<open>hashes.md5.asc\<close>. So no entry names a path under the marker,
  the manifest or the signature.
\<close>

theorem manifest_excludes_marker_and_itself:
  assumes "ofstream_open H (invoked s0) (path_append repo ''hashes.md5'')"
  shows "(case generate_hashes_md5 H repo out_log s0 of
            Returns (ok, log1, s') \<Rightarrow>
              disk s' (path_append repo ''hashes.md5'')
                = Some (manifest_text (manifest_stream H repo out_log s0))
          | Aborts cmds stages \<Rightarrow> throws (recursive_directory_iterator H (invoked s0) repo))
         \<and> (\<forall>e\<in>set (manifest_stream H repo out_log s0).
              \<not> prefix ''./.git'' (snd e) \<and> snd e \<noteq> ''./hashes.md5'' \<and> snd e \<noteq> ''./hashes.md5.asc''
              \<and> (\<exists>p\<in>set (yielded (recursive_directory_iterator H (invoked s0) repo)).
                    is_regular_file p \<and> snd e = ''./'' @ relative p
                    \<and> \<not> prefix ''.git'' (relative p)
                    \<and> relative p \<noteq> ''hashes.md5'' \<and> relative p \<noteq> ''hashes.md5.asc''))"
proof (intro conjI ballI)
  show "case generate_hashes_md5 H repo out_log s0 of
            Returns (ok, log1, s') \<Rightarrow>
              disk s' (path_append repo ''hashes.md5'')
                = Some (manifest_text (manifest_stream H repo out_log s0))
          | Aborts cmds stages \<Rightarrow> throws (recursive_directory_iterator H (invoked s0) repo)"
    using generate_disk [OF assms] generate_aborts_only_if_throws
    by (auto split: outcome.split)
next
  fix e assume e: "e \<in> set (manifest_stream H repo out_log s0)"
  let ?s = "enter (Generate repo) s0"
  let ?run = "hash_files H (yielded (recursive_directory_iterator H (invoked ?s) repo)) [] out_log
                (?s\<lparr>disk := (disk ?s)(path_append repo ''hashes.md5'' \<mapsto> [])\<rparr>)"
  obtain c ofs l s' where run: "?run = (c, ofs, l, s')"
    by (metis prod.exhaust)
  from e run have "e \<in> set ofs"
    by (simp add: manifest_stream_def Let_def)
  from hash_files_entries [OF run this]
  obtain p where p: "p \<in> set (yielded (recursive_directory_iterator H (invoked s0) repo))"
      "is_regular_file p" "snd e = ''./'' @ relative p" "\<not> prefix ''.git'' (relative p)"
      "relative p \<noteq> ''hashes.md5''" "relative p \<noteq> ''hashes.md5.asc''"
    by (auto simp: enter_def)
  from p show "\<not> prefix ''./.git'' (snd e)" by simp
  from p show "snd e \<noteq> ''./hashes.md5''" by simp
  from p show "snd e \<noteq> ''./hashes.md5.asc''" by simp
  from p show "\<exists>p\<in>set (yielded (recursive_directory_iterator H (invoked s0) repo)).
                    is_regular_file p \<and> snd e = ''./'' @ relative p
                    \<and> \<not> prefix ''.git'' (relative p)
                    \<and> relative p \<noteq> ''hashes.md5'' \<and> relative p \<noteq> ''hashes.md5.asc''"
    by blast
qed

theorem manifest_excludes_marker_and_itself_witness:
  "manifest_stream (sample_host tools_ok (\<lambda>p. True) (Listed [])) ''/a'' [] boot
     = [(''0cc175b9'', ''./src/a.c''), (''0cc175b9'', ''./b.txt''), (''0cc175b9'', ''./c.txt'')]
   \<and> (\<exists>ok log1 s'.
         generate_hashes_md5 (sample_host tools_ok (\<lambda>p. True) (Listed [])) ''/a'' [] boot
           = Returns (ok, log1, s')
         \<and> disk s' ''/a/hashes.md5''
             = Some (''0cc175b9  ./src/a.c'' @ nl @ ''0cc175b9  ./b.txt'' @ nl @ ''0cc175b9  ./c.txt'' @ nl))"
proof -
  let ?H = "sample_host tools_ok (\<lambda>p. True) (Listed [])"
  have opened: "ofstream_open ?H (invoked boot) (path_append ''/a'' ''hashes.md5'')"
    by (simp add: sample_host_def)
  have ms: "manifest_stream ?H ''/a'' [] boot
     = [(''0cc175b9'', ''./src/a.c''), (''0cc175b9'', ''./b.txt''), (''0cc175b9'', ''./c.txt'')]"
    by (simp add: manifest_stream_def sample_defs)
  have p: "path_append ''/a'' ''hashes.md5'' = ''/a/hashes.md5''"
    by (simp add: path_append_def)
  have nothrow: "\<not> throws (recursive_directory_iterator ?H (invoked boot) ''/a'')"
    by (simp add: sample_host_def)
  from manifest_excludes_marker_and_itself [OF opened, of "[]"] nothrow
  have "\<exists>ok log1 s'. generate_hashes_md5 ?H ''/a'' [] boot = Returns (ok, log1, s')
      \<and> disk s' (path_append ''/a'' ''hashes.md5'') = Some (manifest_text (manifest_stream ?H ''/a'' [] boot))"
    by (cases "generate_hashes_md5 ?H ''/a'' [] boot") auto
  then show ?thesis
    unfolding ms p by (simp add: manifest_text_def entry_line_def)
qed

text \<open>
  C9. The exclusion is a test of the first four characters of the relative path: the run
  on a traversal is the run on the traversal without the entries whose relative path
  begins with \<^verbatim>\<open>.git\<close>, no entry of the manifest names such a file, and the top-level files
  \<^verbatim>\<open>.gitignore\<close> and \<^verbatim>\<open>.gitmodules\<close>, which are not inside the marker directory, pass the
  test.
\<close>

theorem exclusion_is_by_prefix:
  "generate_hashes_md5 (without_marker_prefix H) repo out_log s0 = generate_hashes_md5 H repo out_log s0
   \<and> (\<forall>p\<in>set (yielded (recursive_directory_iterator H (invoked s0) repo)).
        prefix ''.git'' (relative p) \<longrightarrow>
          ''./'' @ relative p \<notin> snd ` set (manifest_stream H repo out_log s0))
   \<and> prefix ''.git'' ''.gitignore'' \<and> prefix ''.git'' ''.gitmodules''"
proof (intro conjI ballI impI)
  have p: "popen (without_marker_prefix H) = popen H"
    and o: "ofstream_open (without_marker_prefix H) = ofstream_open H"
    by (simp_all add: without_marker_prefix_def)
  have l: "recursive_directory_iterator (without_marker_prefix H) h repo
      = filter_listing (\<lambda>p. \<not> prefix ''.git'' (relative p)) (recursive_directory_iterator H h repo)" for h
    by (simp add: without_marker_prefix_def)
  show "generate_hashes_md5 (without_marker_prefix H) repo out_log s0 = generate_hashes_md5 H repo out_log s0"
    unfolding generate_hashes_md5_def hash_traversal_def Let_def o l filter_listing_yielded
      hash_files_host [OF p] hash_files_skip_marker ..
next
  fix p assume p: "p \<in> set (yielded (recursive_directory_iterator H (invoked s0) repo))"
    and pre: "prefix ''.git'' (relative p)"
  show "''./'' @ relative p \<notin> snd ` set (manifest_stream H repo out_log s0)"
  proof
    assume "''./'' @ relative p \<in> snd ` set (manifest_stream H repo out_log s0)"
    then obtain e where e: "e \<in> set (manifest_stream H repo out_log s0)" "snd e = ''./'' @ relative p"
      by auto
    let ?s = "enter (Generate repo) s0"
    obtain c ofs l s' where run:
      "hash_files H (yielded (recursive_directory_iterator H (invoked ?s) repo)) [] out_log
         (?s\<lparr>disk := (disk ?s)(path_append repo ''hashes.md5'' \<mapsto> [])\<rparr>) = (c, ofs, l, s')"
      by (metis prod.exhaust)
    from e(1) run have "e \<in> set ofs"
      by (simp add: manifest_stream_def Let_def)
    from hash_files_entries [OF run this] e(2) pre show False
      by auto
  qed
qed simp_all

theorem exclusion_is_by_prefix_witness:
  "generate_hashes_md5 (without_marker_prefix (sample_host tools_ok (\<lambda>p. True) (Listed []))) ''/a'' [] boot
     = generate_hashes_md5 (sample_host tools_ok (\<lambda>p. True) (Listed [])) ''/a'' [] boot
   \<and> ''./.gitignore'' \<notin> snd ` set (manifest_stream (sample_host tools_ok (\<lambda>p. True) (Listed [])) ''/a'' [] boot)"
proof -
  let ?H = "sample_host tools_ok (\<lambda>p. True) (Listed [])"
  let ?p = "\<lparr>entry_path = ''/a/.gitignore'', is_regular_file = True, relative = ''.gitignore''\<rparr>"
  have 1: "?p \<in> set (yielded (recursive_directory_iterator ?H (invoked boot) ''/a''))"
    by (simp add: sample_host_def sample_tree_def)
  have 2: "prefix ''.git'' (relative ?p)"
    by simp
  note inst = exclusion_is_by_prefix [of ?H "''/a''" "[]" boot]
  from inst have same: "generate_hashes_md5 (without_marker_prefix ?H) ''/a'' [] boot
      = generate_hashes_md5 ?H ''/a'' [] boot"
    by (rule conjunct1)
  from inst have "\<forall>p\<in>set (yielded (recursive_directory_iterator ?H (invoked boot) ''/a'')).
      prefix ''.git'' (relative p) \<longrightarrow> ''./'' @ relative p \<notin> snd ` set (manifest_stream ?H ''/a'' [] boot)"
    by (rule conjunct1 [OF conjunct2])
  from this 1 2 have "''./'' @ relative ?p \<notin> snd ` set (manifest_stream ?H ''/a'' [] boot)"
    by blast
  then have "''./.gitignore'' \<notin> snd ` set (manifest_stream ?H ''/a'' [] boot)"
    by simp
  with same show ?thesis
    by (rule conjI)
qed

text \<open>
  C3. When the files before \<open>p\<close> in the traversal are hashed without a failure and md5sum
  returns a non-zero status for the eligible file \<open>p\<close>, generation returns failure, the
  failing command is the last one run (nothing after \<open>p\<close> is hashed), and the manifest on
  disk holds exactly the entries inserted for the files before \<open>p\<close>.
\<close>

theorem hashing_failure_aborts:
  assumes opened: "ofstream_open H (invoked s0) (path_append repo ''hashes.md5'')"
    and listing: "yielded (recursive_directory_iterator H (invoked s0) repo) = before @ p # rest"
    and before: "hash_files H before [] out_log
                   ((enter (Generate repo) s0)\<lparr>disk := (disk s0)(path_append repo ''hashes.md5'' \<mapsto> [])\<rparr>)
                 = (True, ofs, log1, s1)"
    and eligible: "is_regular_file p" "\<not> prefix ''.git'' (relative p)"
      "relative p \<noteq> ''hashes.md5''" "relative p \<noteq> ''hashes.md5.asc''"
    and fails: "run_command_capture H (md5sum_cmd p) s1 = ((rc, out), s2)" "rc \<noteq> 0"
  shows "generate_hashes_md5 H repo out_log s0 =
           Returns
             (False, log1 @ ''md5sum fallo para '' @ entry_path p @ '' :'' @ nl @ out @ nl,
              s2\<lparr>disk := (disk s2)(path_append repo ''hashes.md5'' \<mapsto> manifest_text ofs)\<rparr>)
         \<and> invoked s2 = invoked s1 @ [md5sum_cmd p @ '' 2>&1'']"
proof
  have step: "hash_files H (p # rest) ofs log1 s1 =
      (False, ofs, log1 @ ''md5sum fallo para '' @ entry_path p @ '' :'' @ nl @ out @ nl, s2)"
    using eligible fails by simp
  have "hash_files H (yielded (recursive_directory_iterator H (invoked s0) repo)) [] out_log
          ((enter (Generate repo) s0)\<lparr>disk := (disk s0)(path_append repo ''hashes.md5'' \<mapsto> [])\<rparr>)
        = (False, ofs, log1 @ ''md5sum fallo para '' @ entry_path p @ '' :'' @ nl @ out @ nl, s2)"
    unfolding listing using hash_files_append [OF before, of "p # rest"] step by simp
  from generate_opened [OF opened this]
  show "generate_hashes_md5 H repo out_log s0 =
           Returns
             (False, log1 @ ''md5sum fallo para '' @ entry_path p @ '' :'' @ nl @ out @ nl,
              s2\<lparr>disk := (disk s2)(path_append repo ''hashes.md5'' \<mapsto> manifest_text ofs)\<rparr>)"
    by simp
  show "invoked s2 = invoked s1 @ [md5sum_cmd p @ '' 2>&1'']"
    using run_command_capture_eq [OF fails(1)] by simp
qed

theorem hashing_failure_aborts_witness:
  "generate_hashes_md5 (sample_host tools_a_unreadable (\<lambda>p. True) (Listed [])) ''/a'' [] boot =
     Returns
       (False, ''md5sum fallo para /a/b.txt :'' @ nl @ ''md5sum: /a/b.txt: Permission denied'' @ nl @ nl,
        \<lparr>invoked = [''md5sum '' @ dq @ ''/a/src/a.c'' @ dq @ '' 2>&1'',
                    ''md5sum '' @ dq @ ''/a/b.txt'' @ dq @ '' 2>&1''],
         disk = (\<lambda>p. None)(''/a/hashes.md5'' \<mapsto> ''0cc175b9  ./src/a.c'' @ nl),
         calls = [Generate ''/a'']\<rparr>)"
proof -
  let ?H = "sample_host tools_a_unreadable (\<lambda>p. True) (Listed [])"
  let ?before = "take 5 (sample_tree ''/a'')"
  let ?p = "\<lparr>entry_path = ''/a/b.txt'', is_regular_file = True, relative = ''b.txt''\<rparr>"
  let ?rest = "[\<lparr>entry_path = ''/a/c.txt'', is_regular_file = True, relative = ''c.txt''\<rparr>]"
  let ?s1 = "\<lparr>invoked = [''md5sum '' @ dq @ ''/a/src/a.c'' @ dq @ '' 2>&1''],
              disk = (\<lambda>p. None)(''/a/hashes.md5'' \<mapsto> []), calls = [Generate ''/a'']\<rparr>"
  let ?s2 = "\<lparr>invoked = [''md5sum '' @ dq @ ''/a/src/a.c'' @ dq @ '' 2>&1'',
                  ''md5sum '' @ dq @ ''/a/b.txt'' @ dq @ '' 2>&1''],
              disk = (\<lambda>p. None)(''/a/hashes.md5'' \<mapsto> []), calls = [Generate ''/a'']\<rparr>"
  have 1: "ofstream_open ?H (invoked boot) (path_append ''/a'' ''hashes.md5'')"
    by (simp add: sample_host_def)
  have 2: "yielded (recursive_directory_iterator ?H (invoked boot) ''/a'') = ?before @ ?p # ?rest"
    by (simp add: sample_host_def sample_tree_def)
  have 3: "hash_files ?H ?before [] []
             ((enter (Generate ''/a'') boot)\<lparr>disk := (disk boot)(path_append ''/a'' ''hashes.md5'' \<mapsto> [])\<rparr>)
           = (True, [(''0cc175b9'', ''./src/a.c'')], [], ?s1)"
    by (simp add: sample_defs)
  have 4: "run_command_capture ?H (md5sum_cmd ?p) ?s1
           = ((256, ''md5sum: /a/b.txt: Permission denied'' @ nl), ?s2)"
    by (simp add: sample_defs)
  from hashing_failure_aborts [OF 1 2 3 _ _ _ _ 4] show ?thesis
    by (simp add: path_append_def manifest_text_def entry_line_def)
qed

section \<open>Signing and verifying the signature\<close>

text \<open>
  C5. On a repository whose manifest exists and with no key, \<open>sign_hashes\<close> succeeds and
  the one command it runs is \<^verbatim>\<open>gpg --armor --output <repo>/hashes.md5.asc --sign
  <repo>/hashes.md5\<close>; with a key, \<^verbatim>\<open>--default-key <key>\<close> is put in front. Both use
  \<^verbatim>\<open>--sign\<close>, which makes gpg write a signed message that contains the manifest, where a
  detached signature is asked for with \<^verbatim>\<open>--detach-sign\<close>. \<open>verify_cmd\<close> passes the signature
  and the manifest to \<^verbatim>\<open>gpg --verify\<close>, the form that checks a detached signature.
\<close>

theorem sign_hashes_runs_plain_sign:
  "sign_hashes (sample_host tools_ok (\<lambda>p. True) (Listed [])) ''/a'' [] [] boot =
     (True, ''Firmado: /a/hashes.md5.asc'' @ nl,
      \<lparr>invoked = [''gpg --armor --output '' @ dq @ ''/a/hashes.md5.asc'' @ dq
                     @ '' --sign '' @ dq @ ''/a/hashes.md5'' @ dq @ '' 2>&1''],
       disk = (\<lambda>p. None), calls = [Sign ''/a'']\<rparr>)
   \<and> sign_cmd ''/a'' ''K1'' =
       ''gpg --default-key K1 --armor --output '' @ dq @ ''/a/hashes.md5.asc'' @ dq
         @ '' --sign '' @ dq @ ''/a/hashes.md5'' @ dq"
  by (simp add: sign_hashes_def sign_cmd_def sample_defs Let_def)

text \<open>
  The failures of \<open>sign_hashes\<close>: a missing manifest (no command is run), a non-zero
  status, and a \<^verbatim>\<open>popen\<close> that fails.
\<close>

lemma sign_hashes_failures:
  "\<not> fs_exists H (invoked s) (path_append repo ''hashes.md5'') \<Longrightarrow>
     sign_hashes H repo gpg_key out_log s =
       (False, out_log @ ''No existe '' @ path_append repo ''hashes.md5'' @ nl, enter (Sign repo) s)"
  "fs_exists H (invoked s) (path_append repo ''hashes.md5'') \<Longrightarrow>
     popen H (invoked s) (sign_cmd repo gpg_key @ '' 2>&1'') = Some (rc, out) \<Longrightarrow> rc \<noteq> 0 \<Longrightarrow>
     \<not> fst (sign_hashes H repo gpg_key out_log s)"
  "fs_exists H (invoked s) (path_append repo ''hashes.md5'') \<Longrightarrow>
     popen H (invoked s) (sign_cmd repo gpg_key @ '' 2>&1'') = None \<Longrightarrow>
     \<not> fst (sign_hashes H repo gpg_key out_log s)"
  by (simp_all add: sign_hashes_def Let_def enter_def run_command_capture_def)

text \<open>
  C4. When the signature and the manifest exist, \<open>verify_signature\<close> returns true exactly
  when gpg returns status 0 and its output contains \<^verbatim>\<open>Good signature\<close>. So the result is
  Valid with the indicator and status 0, and Invalid or Unverifiable when the status is not
  0 (also when \<^verbatim>\<open>popen\<close> fails) or the indicator is absent.
\<close>

theorem verify_signature_classification:
  assumes "fs_exists H (invoked s) (path_append repo ''hashes.md5.asc'')"
    and "fs_exists H (invoked s) (path_append repo ''hashes.md5'')"
  shows "fst (verify_signature H repo gpg_key out_log s) \<longleftrightarrow>
           (\<exists>out. popen H (invoked s) (verify_cmd repo gpg_key @ '' 2>&1'') = Some (0, out)
                  \<and> (\<exists>a b. out = a @ ''Good signature'' @ b))"
  using assms
  by (auto simp: verify_signature_def Let_def enter_def run_command_capture_def find_str_iff
      split: prod.split option.split)

theorem verify_signature_classification_witness:
  "fst (verify_signature (sample_host tools_ok (\<lambda>p. True) (Listed [])) ''/a'' [] [] boot)
   \<and> \<not> fst (verify_signature
              (sample_host (\<lambda>line. Some (256, ''gpg: Good signature from K'' @ nl)) (\<lambda>p. True) (Listed []))
              ''/a'' [] [] boot)
   \<and> \<not> fst (verify_signature
              (sample_host (\<lambda>line. Some (0, ''gpg: BAD signature from K'' @ nl)) (\<lambda>p. True) (Listed []))
              ''/a'' [] [] boot)"
proof (intro conjI)
  let ?H = "sample_host tools_ok (\<lambda>p. True) (Listed [])"
  have e: "fs_exists ?H (invoked boot) (path_append ''/a'' ''hashes.md5.asc'')"
    "fs_exists ?H (invoked boot) (path_append ''/a'' ''hashes.md5'')"
    by (simp_all add: sample_host_def)
  have "popen ?H (invoked boot) (verify_cmd ''/a'' [] @ '' 2>&1'')
      = Some (0, ''gpg: Good signature from K'' @ nl)"
    by (simp add: sample_host_def tools_ok_def verify_cmd_def path_append_def)
  moreover have "''gpg: Good signature from K'' @ nl = ''gpg: '' @ ''Good signature'' @ '' from K'' @ nl"
    by simp
  ultimately have "\<exists>out. popen ?H (invoked boot) (verify_cmd ''/a'' [] @ '' 2>&1'') = Some (0, out)
      \<and> (\<exists>a b. out = a @ ''Good signature'' @ b)"
    by blast
  with verify_signature_classification [OF e, of "[]" "[]"]
  show "fst (verify_signature ?H ''/a'' [] [] boot)"
    by blast
next
  let ?H = "sample_host (\<lambda>line. Some (256, ''gpg: Good signature from K'' @ nl)) (\<lambda>p. True) (Listed [])"
  have e: "fs_exists ?H (invoked boot) (path_append ''/a'' ''hashes.md5.asc'')"
    "fs_exists ?H (invoked boot) (path_append ''/a'' ''hashes.md5'')"
    by (simp_all add: sample_host_def)
  have "\<not> (\<exists>out. popen ?H (invoked boot) (verify_cmd ''/a'' [] @ '' 2>&1'') = Some (0, out)
      \<and> (\<exists>a b. out = a @ ''Good signature'' @ b))"
    by (simp add: sample_host_def)
  with verify_signature_classification [OF e, of "[]" "[]"]
  show "\<not> fst (verify_signature ?H ''/a'' [] [] boot)"
    by blast
next
  let ?H = "sample_host (\<lambda>line. Some (0, ''gpg: BAD signature from K'' @ nl)) (\<lambda>p. True) (Listed [])"
  have e: "fs_exists ?H (invoked boot) (path_append ''/a'' ''hashes.md5.asc'')"
    "fs_exists ?H (invoked boot) (path_append ''/a'' ''hashes.md5'')"
    by (simp_all add: sample_host_def)
  have "\<not> find_str ''Good signature'' (''gpg: BAD signature from K'' @ nl)"
    by simp
  then have "\<not> (\<exists>a b. ''gpg: BAD signature from K'' @ nl = a @ ''Good signature'' @ b)"
    unfolding find_str_iff .
  then have "\<not> (\<exists>out. popen ?H (invoked boot) (verify_cmd ''/a'' [] @ '' 2>&1'') = Some (0, out)
      \<and> (\<exists>a b. out = a @ ''Good signature'' @ b))"
    by (simp add: sample_host_def)
  with verify_signature_classification [OF e, of "[]" "[]"]
  show "\<not> fst (verify_signature ?H ''/a'' [] [] boot)"
    by blast
qed

text \<open>
  C10. When the signature or the manifest does not exist, \<open>verify_signature\<close> returns
  false with the message of line 157, and the list of the commands run is the one it
  started with: gpg is not called.
\<close>

theorem verify_signature_missing_files:
  assumes "\<not> fs_exists H (invoked s) (path_append repo ''hashes.md5.asc'')
           \<or> \<not> fs_exists H (invoked s) (path_append repo ''hashes.md5'')"
  shows "verify_signature H repo gpg_key out_log s =
           (False, out_log @ ''Faltan archivos de firma o hashes en '' @ repo @ nl,
            enter (VerifySignature repo) s)
         \<and> invoked (snd (snd (verify_signature H repo gpg_key out_log s))) = invoked s"
  using assms
  by (auto simp: verify_signature_def Let_def enter_def)

theorem verify_signature_missing_files_witness:
  "verify_signature (sample_host tools_ok (\<lambda>p. p \<noteq> ''/a/hashes.md5.asc'') (Listed [])) ''/a'' [] [] boot
     = (False, ''Faltan archivos de firma o hashes en /a'' @ nl,
        \<lparr>invoked = [], disk = (\<lambda>p. None), calls = [VerifySignature ''/a'']\<rparr>)"
proof -
  let ?H = "sample_host tools_ok (\<lambda>p. p \<noteq> ''/a/hashes.md5.asc'') (Listed [])"
  have "\<not> fs_exists ?H (invoked boot) (path_append ''/a'' ''hashes.md5.asc'')
      \<or> \<not> fs_exists ?H (invoked boot) (path_append ''/a'' ''hashes.md5'')"
    by (simp add: sample_host_def path_append_def)
  from verify_signature_missing_files [OF this, of "[]" "[]"] show ?thesis
    by (simp add: enter_def boot_def)
qed

section \<open>Publishing\<close>

text \<open>
  When \<^verbatim>\<open>git add\<close> succeeds and \<^verbatim>\<open>git status --porcelain\<close> succeeds with an empty output,
  \<open>git_add_commit_push\<close> returns true, logs that there is nothing to commit, and has run
  these two commands only, neither \<^verbatim>\<open>git commit\<close> nor \<^verbatim>\<open>git push\<close>. The state \<open>s\<close> is any
  state.
\<close>

lemma nothing_to_commit:
  assumes add: "popen H (invoked s) (in_repo repo git_add @ '' 2>&1'') = Some (0, out)"
    and status: "popen H (invoked s @ [in_repo repo git_add @ '' 2>&1''])
                   (in_repo repo git_status @ '' 2>&1'') = Some (0, [])"
  shows "git_add_commit_push H repo out_log s =
           (True, out_log @ out @ ''No hay cambios para commitear en '' @ repo @ nl,
            s\<lparr>invoked := invoked s @ [in_repo repo git_add @ '' 2>&1'',
                                      in_repo repo git_status @ '' 2>&1''],
              calls := calls s @ [Publish repo]\<rparr>)"
  using assms
  by (simp add: git_add_commit_push_def git_run_def run_command_capture_def enter_def Let_def)

lemma nothing_to_commit_example:
  "git_add_commit_push (sample_host tools_ok (\<lambda>p. True) (Listed [])) ''/a'' [] boot
     = (True, ''No hay cambios para commitear en /a'' @ nl,
        \<lparr>invoked = [''cd '' @ dq @ ''/a'' @ dq @ '' && git add hashes.md5 hashes.md5.asc 2>&1'',
                    ''cd '' @ dq @ ''/a'' @ dq @ '' && git status --porcelain 2>&1''],
         disk = (\<lambda>p. None), calls = [Publish ''/a'']\<rparr>)
   \<and> git_add_commit_push (sample_host tools_ok (\<lambda>p. True) (Listed [])) ''/a'' []
       (snd (snd (git_add_commit_push (sample_host tools_ok (\<lambda>p. True) (Listed [])) ''/a'' [] boot)))
     = (True, ''No hay cambios para commitear en /a'' @ nl,
        \<lparr>invoked = [''cd '' @ dq @ ''/a'' @ dq @ '' && git add hashes.md5 hashes.md5.asc 2>&1'',
                    ''cd '' @ dq @ ''/a'' @ dq @ '' && git status --porcelain 2>&1'',
                    ''cd '' @ dq @ ''/a'' @ dq @ '' && git add hashes.md5 hashes.md5.asc 2>&1'',
                    ''cd '' @ dq @ ''/a'' @ dq @ '' && git status --porcelain 2>&1''],
         disk = (\<lambda>p. None), calls = [Publish ''/a'', Publish ''/a'']\<rparr>)"
proof -
  let ?H = "sample_host tools_ok (\<lambda>p. True) (Listed [])"
  have 1: "popen ?H (invoked s) (in_repo ''/a'' git_add @ '' 2>&1'') = Some (0, [])" for s
    by (simp add: sample_host_def tools_ok_def in_repo_def git_add_def)
  have 2: "popen ?H (invoked s @ [in_repo ''/a'' git_add @ '' 2>&1''])
             (in_repo ''/a'' git_status @ '' 2>&1'') = Some (0, [])" for s
    by (simp add: sample_host_def tools_ok_def in_repo_def git_status_def)
  have first: "git_add_commit_push ?H ''/a'' [] boot
     = (True, ''No hay cambios para commitear en /a'' @ nl,
        \<lparr>invoked = [''cd '' @ dq @ ''/a'' @ dq @ '' && git add hashes.md5 hashes.md5.asc 2>&1'',
                    ''cd '' @ dq @ ''/a'' @ dq @ '' && git status --porcelain 2>&1''],
         disk = (\<lambda>p. None), calls = [Publish ''/a'']\<rparr>)"
    using nothing_to_commit [OF 1 [of boot] 2 [of boot], of "[]"]
    by (simp add: boot_def in_repo_def git_add_def git_status_def)
  have second: "git_add_commit_push ?H ''/a'' [] (snd (snd (git_add_commit_push ?H ''/a'' [] boot)))
     = (True, ''No hay cambios para commitear en /a'' @ nl,
        \<lparr>invoked = [''cd '' @ dq @ ''/a'' @ dq @ '' && git add hashes.md5 hashes.md5.asc 2>&1'',
                    ''cd '' @ dq @ ''/a'' @ dq @ '' && git status --porcelain 2>&1'',
                    ''cd '' @ dq @ ''/a'' @ dq @ '' && git add hashes.md5 hashes.md5.asc 2>&1'',
                    ''cd '' @ dq @ ''/a'' @ dq @ '' && git status --porcelain 2>&1''],
         disk = (\<lambda>p. None), calls = [Publish ''/a'', Publish ''/a'']\<rparr>)"
    using nothing_to_commit [OF 1 [of "snd (snd (git_add_commit_push ?H ''/a'' [] boot))"]
        2 [of "snd (snd (git_add_commit_push ?H ''/a'' [] boot))"], of "[]"]
    unfolding first by (simp add: in_repo_def git_add_def git_status_def)
  from first second show ?thesis
    by (rule conjI)
qed

text \<open>For contrast, a status that reports a change: the commit and the push are run.\<close>

lemma commit_and_push_when_status_reports:
  "git_add_commit_push
     (sample_host (\<lambda>line. if line = ''cd '' @ dq @ ''/a'' @ dq @ '' && git status --porcelain 2>&1''
                          then Some (0, ''M  hashes.md5'' @ nl) else Some (0, []))
        (\<lambda>p. True) (Listed []))
     ''/a'' [] boot
   = (True, ''Push OK para /a'' @ nl,
      \<lparr>invoked = [''cd '' @ dq @ ''/a'' @ dq @ '' && git add hashes.md5 hashes.md5.asc 2>&1'',
                  ''cd '' @ dq @ ''/a'' @ dq @ '' && git status --porcelain 2>&1'',
                  ''cd '' @ dq @ ''/a'' @ dq @ '' && git commit -m '' @ dq @ ''a'' @ [CHR 0xC3, CHR 0xB1]
                    @ ''adiendo fichero de hashes firmado'' @ dq @ '' 2>&1'',
                  ''cd '' @ dq @ ''/a'' @ dq @ '' && git push 2>&1''],
       disk = (\<lambda>p. None), calls = [Publish ''/a'']\<rparr>)"
  by (simp add: stage_defs git_commit_def git_push_def sample_defs)


section \<open>The two handlers\<close>

text \<open>
  What the handler of lines 283 to 304 does as long as \<open>generate_hashes_md5\<close> returns: the
  body ends in a return, the stage functions entered for the repository are Generate,
  then Sign if Generate returned true, then Publish if Sign returned true, and after a
  failure the state is the one the failing stage left. When no traversal throws, the loop
  returns and every repository of the list, in order, has a part of the pipeline that
  begins with Generate. When the traversal of a repository throws, the handler ends there
  with the exception, whatever repositories follow.
\<close>

lemma publish_repo_stages:
  assumes "generate_hashes_md5 H r [] s = Returns (ok1, tmp1, s1)"
  shows "\<exists>l' s'. publish_repo H k r (l, s) = Returns (l', s')
           \<and> calls s' = calls s
                @ take (if \<not> ok1 then 1 else if \<not> fst (sign_hashes H r k [] s1) then 2 else 3)
                    (pipeline r)
           \<and> (\<not> ok1 \<longrightarrow> s' = s1)
           \<and> (ok1 \<and> \<not> fst (sign_hashes H r k [] s1) \<longrightarrow> s' = snd (snd (sign_hashes H r k [] s1)))"
proof -
  obtain ok2 tmp2 s2 where sg: "sign_hashes H r k [] s1 = (ok2, tmp2, s2)"
    by (metis prod.exhaust)
  obtain ok3 tmp3 s3 where p: "git_add_commit_push H r [] s2 = (ok3, tmp3, s3)"
    by (metis prod.exhaust)
  have c1: "calls s1 = calls s @ [Generate r]"
    using generate_calls(1) [OF assms] .
  have c2: "calls s2 = calls s1 @ [Sign r]"
    using sign_calls [of H r k "[]" s1] sg by simp
  have c3: "calls s3 = calls s2 @ [Publish r]"
    using git_calls [of H r "[]" s2] p by simp
  show ?thesis
    by (simp add: publish_repo_def pipeline_def Let_def assms sg p c1 c2 c3)
qed

lemma publish_loop_shape:
  assumes "\<And>h r. \<not> throws (recursive_directory_iterator H h r)"
  shows "\<exists>l' s' ks. publish_loop H k repos (l, s) = Returns (l', s')
           \<and> length ks = length repos \<and> (\<forall>n\<in>set ks. 1 \<le> n \<and> n \<le> 3)
           \<and> calls s' = calls s @ concat (map2 (\<lambda>r n. take n (pipeline r)) repos ks)"
proof (induction repos arbitrary: l s)
  case Nil
  show ?case by simp
next
  case (Cons r repos)
  have "\<not> throws (recursive_directory_iterator H (invoked s) r)"
    by (rule assms)
  from generate_returns [OF this, of "[]"]
  obtain ok1 tmp1 s1 where g: "generate_hashes_md5 H r [] s = Returns (ok1, tmp1, s1)"
    by blast
  define n where "n = (if \<not> ok1 then 1 else if \<not> fst (sign_hashes H r k [] s1) then 2 else (3::nat))"
  from publish_repo_stages [OF g, of k l]
  obtain l1 s' where step: "publish_repo H k r (l, s) = Returns (l1, s')"
    and c: "calls s' = calls s @ take n (pipeline r)"
    unfolding n_def by blast
  from Cons.IH [of l1 s']
  obtain l2 s2 ks where rest: "publish_loop H k repos (l1, s') = Returns (l2, s2)"
    and len: "length ks = length repos" and range: "\<forall>n\<in>set ks. 1 \<le> n \<and> n \<le> 3"
    and c2: "calls s2 = calls s' @ concat (map2 (\<lambda>r n. take n (pipeline r)) repos ks)"
    by blast
  have n: "1 \<le> n \<and> n \<le> 3"
    by (simp add: n_def)
  have "publish_loop H k (r # repos) (l, s) = Returns (l2, s2)"
    by (simp add: step rest)
  moreover have "length (n # ks) = length (r # repos)"
    by (simp add: len)
  moreover have "\<forall>m\<in>set (n # ks). 1 \<le> m \<and> m \<le> 3"
    using n range by simp
  moreover have "calls s2 = calls s @ concat (map2 (\<lambda>r n. take n (pipeline r)) (r # repos) (n # ks))"
    by (simp add: c c2)
  ultimately show ?case
    by blast
qed

lemma publish_aborts:
  assumes "generate_hashes_md5 H r [] s = Aborts cmds stages"
  shows "generar_firmar_todos H k (r # rs) (l, s) = Aborts cmds stages"
    and "stages = calls s @ [Generate r]"
  using assms generate_calls(2) [OF assms]
  by (simp_all add: generar_firmar_todos_def publish_repo_def Let_def)

text \<open>
  Two runs where a stage reports failure: md5sum fails in \<^verbatim>\<open>/a\<close> and \<^verbatim>\<open>/b\<close> still runs its
  three stages; gpg exits with a non-zero status and no git command is run.
\<close>

lemma publish_continues_after_failed_generate:
  "\<exists>l s. generar_firmar_todos (sample_host tools_a_unreadable (\<lambda>p. True) (Listed [])) []
            [''/a'', ''/b''] ([], boot) = Returns (l, s)
         \<and> calls s = [Generate ''/a'', Generate ''/b'', Sign ''/b'', Publish ''/b'']"
  by (simp add: generar_firmar_todos_def publish_repo_def stage_defs sample_defs)

lemma publish_stops_after_failed_sign:
  "\<exists>l s. generar_firmar_todos
            (sample_host (\<lambda>line. if prefix ''gpg '' line
                                  then Some (512, ''gpg: signing failed: No secret key'' @ nl)
                                  else tools_ok line)
               (\<lambda>p. True) (Listed []))
            [] [''/a''] ([], boot) = Returns (l, s)
         \<and> calls s = [Generate ''/a'', Sign ''/a'']
         \<and> invoked s = [''md5sum '' @ dq @ ''/a/src/a.c'' @ dq @ '' 2>&1'',
                         ''md5sum '' @ dq @ ''/a/b.txt'' @ dq @ '' 2>&1'',
                         ''md5sum '' @ dq @ ''/a/c.txt'' @ dq @ '' 2>&1'',
                         ''gpg --armor --output '' @ dq @ ''/a/hashes.md5.asc'' @ dq
                           @ '' --sign '' @ dq @ ''/a/hashes.md5'' @ dq @ '' 2>&1'']"
  by (simp add: generar_firmar_todos_def publish_repo_def stage_defs sample_defs to_string_def
      to_digits.simps)

text \<open>
  C2. On a host where \<^verbatim>\<open>/a\<close> holds a directory that cannot be opened, the traversal of
  \<^verbatim>\<open>/a\<close> throws after four entries. Publish-All over \<^verbatim>\<open>/a\<close> and \<^verbatim>\<open>/b\<close> then ends with the
  exception: one md5sum command has run, Generate was entered for \<^verbatim>\<open>/a\<close>, and no stage at
  all is entered for \<^verbatim>\<open>/b\<close>. The claim asks that \<^verbatim>\<open>/b\<close> still run its whole pipeline. The
  loop over the root directory catches this exception (lines 265 to 273); the loop of
  line 60 and the one of line 285 do not.
\<close>

theorem publish_all_aborts_on_unreadable_directory:
  "generar_firmar_todos host_a_unreadable_dir [] [''/a'', ''/b''] ([], boot)
     = Aborts [''md5sum '' @ dq @ ''/a/src/a.c'' @ dq @ '' 2>&1''] [Generate ''/a'']"
  by (simp add: generar_firmar_todos_def publish_repo_def host_a_unreadable_dir_def stage_defs
      sample_defs)

lemma verify_repo_calls:
  "calls (snd (verify_repo H gpg_key r st)) = calls (snd st) @ [VerifySignature r, VerifyMd5 r]"
proof -
  obtain sigok tmp1 s1 where a: "verify_signature H r gpg_key [] (snd st) = (sigok, tmp1, s1)"
    by (metis prod.exhaust)
  obtain mdok tmp2 s2 where b: "verify_md5sum H r [] s1 = (mdok, tmp2, s2)"
    by (metis prod.exhaust)
  have c1: "calls s1 = calls (snd st) @ [VerifySignature r]"
    using verify_signature_calls [of H r gpg_key "[]" "snd st"] a by simp
  have c2: "calls s2 = calls s1 @ [VerifyMd5 r]"
    using verify_md5sum_calls [of H r "[]" s1] b by simp
  show ?thesis
    by (simp add: verify_repo_def Let_def a b c1 c2)
qed

lemma fold_verify_calls:
  "calls (snd (fold (verify_repo H gpg_key) repos st)) =
     calls (snd st) @ concat (map (\<lambda>r. [VerifySignature r, VerifyMd5 r]) repos)"
  by (induction repos arbitrary: st) (simp_all add: verify_repo_calls)

lemma verify_repo_log:
  "fst (verify_repo H gpg_key r st) =
     fst st @ ''Verificando: '' @ r @ nl
       @ fst (snd (verify_signature H r gpg_key [] (snd st)))
       @ fst (snd (verify_md5sum H r [] (snd (snd (verify_signature H r gpg_key [] (snd st))))))
       @ ''Resultado: firma='' @ ok_fail (fst (verify_signature H r gpg_key [] (snd st)))
       @ '', md5='' @ ok_fail (fst (verify_md5sum H r [] (snd (snd (verify_signature H r gpg_key [] (snd st))))))
       @ nl"
  by (simp add: verify_repo_def Let_def split: prod.split)

lemma verify_signature_history_free:
  assumes "popen H = (\<lambda>h. tool)" and "fs_exists H = (\<lambda>h. present)"
  shows "fst (verify_signature H r k l s) = fst (verify_signature H r k l s')"
    and "fst (snd (verify_signature H r k l s)) = fst (snd (verify_signature H r k l s'))"
  by (auto simp: verify_signature_def Let_def enter_def run_command_capture_def assms
      split: prod.split option.split)

lemma verify_md5sum_history_free:
  assumes "popen H = (\<lambda>h. tool)" and "fs_exists H = (\<lambda>h. present)"
  shows "fst (verify_md5sum H r l s) = fst (verify_md5sum H r l s')"
    and "fst (snd (verify_md5sum H r l s)) = fst (snd (verify_md5sum H r l s'))"
  by (auto simp: verify_md5sum_def Let_def enter_def run_command_capture_def assms
      split: prod.split option.split)

lemma verify_repo_history_free:
  assumes "popen H = (\<lambda>h. tool)" and "fs_exists H = (\<lambda>h. present)"
  shows "fst (verify_repo H k r (l, s)) = l @ fst (verify_repo H k r ([], s'))"
  unfolding verify_repo_log fst_conv snd_conv
  using verify_signature_history_free [OF assms, of r k "[]" s s']
    verify_md5sum_history_free [OF assms, of r "[]"
      "snd (snd (verify_signature H r k [] s))" "snd (snd (verify_signature H r k [] s'))"]
  by simp

lemma fold_verify_history_free:
  assumes "popen H = (\<lambda>h. tool)" and "fs_exists H = (\<lambda>h. present)"
  shows "fst (fold (verify_repo H k) repos (l, s)) =
           l @ concat (map (\<lambda>r. fst (verify_repo H k r ([], s'))) repos)"
proof (induction repos arbitrary: l s)
  case Nil
  show ?case by simp
next
  case (Cons r repos)
  obtain l1 s1 where step: "verify_repo H k r (l, s) = (l1, s1)"
    by (metis prod.exhaust)
  have "l1 = l @ fst (verify_repo H k r ([], s'))"
    using verify_repo_history_free [OF assms, of k r l s s'] step by simp
  then show ?case
    by (simp add: step Cons.IH)
qed

text \<open>
  C6. Verify-All enters, for every repository of the list in order, \<open>verify_signature\<close>
  and then \<open>verify_md5sum\<close>, whatever the first returned. The text it adds to the log for
  a repository ends with the line \<^verbatim>\<open>Resultado: firma=<OK|FAIL>, md5=<OK|FAIL>\<close> made of the
  two results. When the answers of the host do not depend on the commands run before, the
  log is the heading, then for each repository the text that verifying it alone from the
  starting state gives, then the closing line: the text of a repository depends neither on
  the other repositories nor on its place in the list.
\<close>

theorem verify_all_runs_both_checks:
  "calls (snd (verificar_todos H gpg_key repos st)) =
     calls (snd st) @ concat (map (\<lambda>r. [VerifySignature r, VerifyMd5 r]) repos)
   \<and> fst (verify_repo H gpg_key r st) =
       fst st @ ''Verificando: '' @ r @ nl
         @ fst (snd (verify_signature H r gpg_key [] (snd st)))
         @ fst (snd (verify_md5sum H r [] (snd (snd (verify_signature H r gpg_key [] (snd st))))))
         @ ''Resultado: firma='' @ ok_fail (fst (verify_signature H r gpg_key [] (snd st)))
         @ '', md5='' @ ok_fail (fst (verify_md5sum H r [] (snd (snd (verify_signature H r gpg_key [] (snd st))))))
         @ nl
   \<and> ((\<forall>h. popen H h = popen H []) \<and> (\<forall>h. fs_exists H h = fs_exists H []) \<longrightarrow>
        fst (verificar_todos H gpg_key repos st) =
          fst st @ ''=== Verificar ==='' @ nl
            @ concat (map (\<lambda>r. fst (verify_repo H gpg_key r ([], snd st))) repos)
            @ ''=== Fin verificaci'' @ [CHR 0xC3, CHR 0xB3] @ ''n ==='' @ nl)"
proof (intro conjI impI)
  show "calls (snd (verificar_todos H gpg_key repos st)) =
     calls (snd st) @ concat (map (\<lambda>r. [VerifySignature r, VerifyMd5 r]) repos)"
    unfolding verificar_todos_def snd_case_prod
    using fold_verify_calls [of H gpg_key repos "(fst st @ ''=== Verificar ==='' @ nl, snd st)"]
    unfolding snd_conv .
next
  show "fst (verify_repo H gpg_key r st) =
       fst st @ ''Verificando: '' @ r @ nl
         @ fst (snd (verify_signature H r gpg_key [] (snd st)))
         @ fst (snd (verify_md5sum H r [] (snd (snd (verify_signature H r gpg_key [] (snd st))))))
         @ ''Resultado: firma='' @ ok_fail (fst (verify_signature H r gpg_key [] (snd st)))
         @ '', md5='' @ ok_fail (fst (verify_md5sum H r [] (snd (snd (verify_signature H r gpg_key [] (snd st))))))
         @ nl"
    by (rule verify_repo_log)
next
  assume free: "(\<forall>h. popen H h = popen H []) \<and> (\<forall>h. fs_exists H h = fs_exists H [])"
  then have p: "popen H = (\<lambda>h. popen H [])" and e: "fs_exists H = (\<lambda>h. fs_exists H [])"
    by auto
  show "fst (verificar_todos H gpg_key repos st) =
          fst st @ ''=== Verificar ==='' @ nl
            @ concat (map (\<lambda>r. fst (verify_repo H gpg_key r ([], snd st))) repos)
            @ ''=== Fin verificaci'' @ [CHR 0xC3, CHR 0xB3] @ ''n ==='' @ nl"
    unfolding verificar_todos_def fst_case_prod
      fold_verify_history_free [OF p e, of gpg_key repos _ "snd st" "snd st"]
    by simp
qed

theorem verify_all_runs_both_checks_witness:
  "calls (snd (verificar_todos (sample_host tools_ok (\<lambda>p. p \<noteq> ''/a/hashes.md5'') (Listed [])) []
                 [''/a'', ''/b''] ([], boot)))
     = [VerifySignature ''/a'', VerifyMd5 ''/a'', VerifySignature ''/b'', VerifyMd5 ''/b'']
   \<and> fst (verificar_todos (sample_host tools_ok (\<lambda>p. p \<noteq> ''/a/hashes.md5'') (Listed [])) []
            [''/a'', ''/b''] ([], boot))
     = ''=== Verificar ==='' @ nl
       @ ''Verificando: /a'' @ nl
       @ ''Faltan archivos de firma o hashes en /a'' @ nl
       @ ''No existe /a/hashes.md5'' @ nl
       @ ''Resultado: firma=FAIL, md5=FAIL'' @ nl
       @ ''Verificando: /b'' @ nl
       @ ''gpg: Good signature from K'' @ nl
       @ ''Firma v'' @ [CHR 0xC3, CHR 0xA1] @ ''lida en /b'' @ nl
       @ ''Integridad OK en /b'' @ nl
       @ ''Resultado: firma=OK, md5=OK'' @ nl
       @ ''=== Fin verificaci'' @ [CHR 0xC3, CHR 0xB3] @ ''n ==='' @ nl"
proof -
  let ?H = "sample_host tools_ok (\<lambda>p. p \<noteq> ''/a/hashes.md5'') (Listed [])"
  note inst = verify_all_runs_both_checks [of ?H "[]" "[''/a'', ''/b'']" "([], boot)" "''/a''"]
  have free: "(\<forall>h. popen ?H h = popen ?H []) \<and> (\<forall>h. fs_exists ?H h = fs_exists ?H [])"
    by (simp add: sample_host_def)
  have cb: "calls boot = []"
    by (simp add: boot_def)
  have block_a: "fst (verify_repo ?H [] ''/a'' ([], boot)) =
      ''Verificando: /a'' @ nl @ ''Faltan archivos de firma o hashes en /a'' @ nl
        @ ''No existe /a/hashes.md5'' @ nl @ ''Resultado: firma=FAIL, md5=FAIL'' @ nl"
    by (simp add: verify_repo_def stage_defs sample_defs ok_fail_def)
  have block_b: "fst (verify_repo ?H [] ''/b'' ([], boot)) =
      ''Verificando: /b'' @ nl @ ''gpg: Good signature from K'' @ nl
        @ ''Firma v'' @ [CHR 0xC3, CHR 0xA1] @ ''lida en /b'' @ nl
        @ ''Integridad OK en /b'' @ nl @ ''Resultado: firma=OK, md5=OK'' @ nl"
    by (simp add: verify_repo_def stage_defs sample_defs ok_fail_def)
  from inst have "calls (snd (verificar_todos ?H [] [''/a'', ''/b''] ([], boot)))
      = calls (snd ([]::string, boot)) @ concat (map (\<lambda>r. [VerifySignature r, VerifyMd5 r]) [''/a'', ''/b''])"
    by (rule conjunct1)
  then have 1: "calls (snd (verificar_todos ?H [] [''/a'', ''/b''] ([], boot)))
      = [VerifySignature ''/a'', VerifyMd5 ''/a'', VerifySignature ''/b'', VerifyMd5 ''/b'']"
    by (simp add: cb)
  from inst free have "fst (verificar_todos ?H [] [''/a'', ''/b''] ([], boot)) =
          fst ([]::string, boot) @ ''=== Verificar ==='' @ nl
            @ concat (map (\<lambda>r. fst (verify_repo ?H [] r ([], snd ([]::string, boot)))) [''/a'', ''/b''])
            @ ''=== Fin verificaci'' @ [CHR 0xC3, CHR 0xB3] @ ''n ==='' @ nl"
    by blast
  then have 2: "fst (verificar_todos ?H [] [''/a'', ''/b''] ([], boot))
     = ''=== Verificar ==='' @ nl
       @ ''Verificando: /a'' @ nl
       @ ''Faltan archivos de firma o hashes en /a'' @ nl
       @ ''No existe /a/hashes.md5'' @ nl
       @ ''Resultado: firma=FAIL, md5=FAIL'' @ nl
       @ ''Verificando: /b'' @ nl
       @ ''gpg: Good signature from K'' @ nl
       @ ''Firma v'' @ [CHR 0xC3, CHR 0xA1] @ ''lida en /b'' @ nl
       @ ''Integridad OK en /b'' @ nl
       @ ''Resultado: firma=OK, md5=OK'' @ nl
       @ ''=== Fin verificaci'' @ [CHR 0xC3, CHR 0xB3] @ ''n ==='' @ nl"
    by (simp add: block_a block_b)
  from 1 2 show ?thesis
    by (rule conjI)
qed

section \<open>Detecting the repositories\<close>







end
